theory Spec2Isabelle
  imports Main
begin

section \<open>Front end: the \<open>useAuth\<close> hook and the \<open>App\<close> component\<close>

subsection \<open>JavaScript values\<close>

text \<open>
  The body of a server reply is parsed JSON, typed \<open>any\<close> in the source. Numbers are
  restricted to integers here; only their truthiness is ever looked at.
\<close>

datatype js_value =
    Undefined
  | Null
  | Bool bool
  | Number int
  | Str string
  | Array "js_value list"
  | Object "(string \<times> js_value) list"

text \<open>\<open>v.k\<close> on a value that is neither \<open>null\<close> nor \<open>undefined\<close>: an object yields
  the property when it has one; everything else has none of the properties read here.\<close>

fun getProp :: "js_value \<Rightarrow> string \<Rightarrow> js_value" where
  "getProp (Object kvs) k = (case map_of kvs k of Some v \<Rightarrow> v | None \<Rightarrow> Undefined)"
| "getProp v k = Undefined"

text \<open>Optional chaining \<open>v?.k\<close>.\<close>

fun optChain :: "js_value \<Rightarrow> string \<Rightarrow> js_value" where
  "optChain Undefined k = Undefined"
| "optChain Null k = Undefined"
| "optChain v k = getProp v k"

fun truthy :: "js_value \<Rightarrow> bool" where
  "truthy Undefined = False"
| "truthy Null = False"
| "truthy (Bool b) = b"
| "truthy (Number n) = (n \<noteq> 0)"
| "truthy (Str s) = (s \<noteq> [])"
| "truthy (Array xs) = True"
| "truthy (Object kvs) = True"

text \<open>The operator \<open>a || b\<close>.\<close>

definition js_or :: "js_value \<Rightarrow> js_value \<Rightarrow> js_value" where
  "js_or a b = (if truthy a then a else b)"

subsection \<open>\<open>hooks/useAuth\<close>\<close>

record User =
  id' :: int
  username :: string
  email :: string
  full_name :: "string option"
  role :: string
  is_active :: bool

record AuthState =
  user :: "User option"
  token :: "string option"
  loading :: bool

text \<open>What \<open>login\<close> reads and writes outside its own frame: the browser's
  \<open>localStorage\<close>, the default headers of axios, and the hook's state.\<close>

record browser =
  localStorage :: "string \<rightharpoonup> string"
  axios_headers :: "string \<rightharpoonup> string"
  auth :: AuthState

text \<open>The reply to \<open>POST /api/v1/auth/login\<close>. A resolved reply carries the two fields
  the source destructures; a rejection carries an axios error, whose \<open>response\<close> is
  \<open>undefined\<close> when no reply arrived.\<close>

record login_response =
  access_token :: string
  response_user :: User

record axios_error =
  response :: js_value

datatype post_outcome = Resolved login_response | Rejected axios_error

record login_result =
  success :: bool
  error :: js_value

type_synonym auth_server = "(string \<times> string) list \<Rightarrow> post_outcome"

definition error_detail :: "axios_error \<Rightarrow> js_value" where
  "error_detail e = optChain (optChain (response e) ''data'') ''detail''"

definition login :: "auth_server \<Rightarrow> string \<Rightarrow> string \<Rightarrow> browser \<Rightarrow> login_result \<times> browser" where
  "login post uname password w =
     (let formData = [(''username'', uname), (''password'', password)] in
      case post formData of
        Resolved r \<Rightarrow>
          (\<lparr>success = True, error = Undefined\<rparr>,
           w\<lparr>localStorage := (localStorage w)(''token'' \<mapsto> access_token r),
             axios_headers := (axios_headers w)(''Authorization'' \<mapsto> ''Bearer '' @ access_token r),
             auth := \<lparr>user = Some (response_user r), token = Some (access_token r),
                      loading = False\<rparr>\<rparr>)
      | Rejected e \<Rightarrow>
          (\<lparr>success = False, error = js_or (error_detail e) (Str ''Login failed'')\<rparr>, w))"

definition logout :: "browser \<Rightarrow> browser" where
  "logout w =
     w\<lparr>localStorage := (localStorage w)(''token'' := None),
       axios_headers := (axios_headers w)(''Authorization'' := None),
       auth := \<lparr>user = None, token = None, loading = False\<rparr>\<rparr>"

subsection \<open>\<open>App.tsx\<close>\<close>

datatype element =
    Login | Register | Dashboard | Brands | ContentGeneration | Campaigns
  | Navigate string

text \<open>
  \<open>Routes\<close> renders the element of the best route that matches the location. How a
  static pattern matches a location is the router library's business and is a parameter
  here; the pattern \<open>*\<close> matches every location and ranks last. In both route tables of
  \<open>App\<close> the splat is written last, so taking the first match in the written order is
  the library's choice.
\<close>

type_synonym matcher = "string \<Rightarrow> string \<Rightarrow> bool"

fun Routes :: "matcher \<Rightarrow> (string \<times> element) list \<Rightarrow> string \<Rightarrow> element option" where
  "Routes m [] loc = None"
| "Routes m ((p, e) # rs) loc = (if p = ''*'' \<or> m p loc then Some e else Routes m rs loc)"

datatype view =
    Container_sm "element option"
  | AppBar_Box string "element option"

text \<open>\<open>user.full_name || user.username\<close>: an absent or empty full name is falsy.\<close>

definition welcome_name :: "User \<Rightarrow> string" where
  "welcome_name u =
     (case full_name u of None \<Rightarrow> username u | Some n \<Rightarrow> if n = [] then username u else n)"

definition App :: "matcher \<Rightarrow> User option \<Rightarrow> string \<Rightarrow> view" where
  "App m usr loc =
     (case usr of
        None \<Rightarrow>
          Container_sm
            (Routes m [(''/login'', Login), (''/register'', Register),
                       (''*'', Navigate ''/login'')] loc)
      | Some u \<Rightarrow>
          AppBar_Box (welcome_name u)
            (Routes m [(''/'', Dashboard), (''/brands'', Brands),
                       (''/content'', ContentGeneration), (''/campaigns'', Campaigns),
                       (''*'', Navigate ''/'')] loc))"

fun routed :: "view \<Rightarrow> element option" where
  "routed (Container_sm e) = e"
| "routed (AppBar_Box n e) = e"

fun authenticated_page :: "element \<Rightarrow> bool" where
  "authenticated_page Dashboard = True"
| "authenticated_page Brands = True"
| "authenticated_page ContentGeneration = True"
| "authenticated_page Campaigns = True"
| "authenticated_page e = False"

text \<open>
  A matcher for concrete runs. It is stricter than the router library's: a static pattern
  matches only the location equal to it, where the library also ignores letter case and a
  trailing slash. On the locations used below, written in lower case and without a trailing
  slash, the two agree.
\<close>

definition exact_match :: matcher where
  "exact_match p loc = (p = loc)"

definition alice :: User where
  "alice = \<lparr>id' = 1, username = ''alice'', email = ''alice@example.com'',
            full_name = None, role = ''user'', is_active = True\<rparr>"

definition fresh_browser :: browser where
  "fresh_browser =
     \<lparr>localStorage = Map.empty, axios_headers = Map.empty,
      auth = \<lparr>user = None, token = None, loading = False\<rparr>\<rparr>"

text \<open>Two rejections for concrete runs: a 401 reply whose body carries a message, and one
  whose \<open>detail\<close> is the empty string.\<close>

definition bad_credentials :: axios_error where
  "bad_credentials =
     \<lparr>response = Object [(''status'', Number 401),
        (''data'', Object [(''detail'', Str ''Incorrect username or password'')])]\<rparr>"

definition empty_detail :: axios_error where
  "empty_detail =
     \<lparr>response = Object [(''status'', Number 401),
        (''data'', Object [(''detail'', Str [])])]\<rparr>"

section \<open>Generation Orchestration Engine\<close>

text \<open>
  The engine (rate limiter, provider registry and failover controller, context assembler,
  prompt builder, generation pipeline) lives in the repository's back end, which is not
  among the sources at hand: only the front end, the environment file and the README are.
  Each definition of this section follows the specification's words and says so. Time is a
  number of seconds; one call happens at one instant.
\<close>

subsection \<open>Rate Limiter\<close>

text \<open>
  Modelled from the spec: the opaque caller identity, used only as the rate-limit key
  (section 6).
\<close>

type_synonym caller_id = string

text \<open>
  Modelled from the spec: one entry of RateLimitCounters (section 3), a window-start
  timestamp with its request count.
\<close>

record window =
  window_start :: nat
  request_count :: nat

text \<open>
  Modelled from the spec: the two windows the Rate Limiter maintains per caller (section
  4.1), one minute and one hour long. The windows are taken as fixed ones (the spec allows
  sliding or fixed): a window opens at the first request after the last reset and resets
  when its length has elapsed. A window that has not been opened or was pruned is absent.
\<close>

record caller_windows =
  minute_window :: "window option"
  hour_window :: "window option"

text \<open>
  Modelled from the spec: RateLimitCounters (section 3), the per-caller counters.
\<close>

type_synonym RateLimitCounters = "caller_id \<rightharpoonup> caller_windows"

text \<open>
  Modelled from the spec: the configurable caps of the Rate Limiter (section 4.1).
\<close>

record rate_config =
  per_minute :: nat
  per_hour :: nat

text \<open>
  The default caps; the repository's environment file gives them as
  \<open>RATE_LIMIT_PER_MINUTE=60\<close> and \<open>RATE_LIMIT_PER_HOUR=1000\<close>, and
  section 4.1 of the specification names the same defaults.
\<close>

definition default_rate_config :: rate_config where
  "default_rate_config = \<lparr>per_minute = 60, per_hour = 1000\<rparr>"

text \<open>
  Modelled from the spec: the result of \<open>check_and_increment\<close> (section 4.1),
  Allowed or Denied with a retry-after in seconds.
\<close>

datatype decision = Allowed | Denied nat

text \<open>
  Modelled from the spec: "prune expired windows" (section 4.1): a window of length
  \<open>len\<close> seconds that started at \<open>s\<close> has expired at
  \<open>now\<close> when \<open>s + len \<le> now\<close>.
\<close>

definition prune :: "nat \<Rightarrow> nat \<Rightarrow> window option \<Rightarrow> window option" where
  "prune len now w =
     (case w of None \<Rightarrow> None
      | Some v \<Rightarrow> if window_start v + len \<le> now then None else Some v)"

text \<open>
  Modelled from the spec: the "current count" compared to the cap (section 4.1); no live
  window counts as zero requests.
\<close>

definition current_count :: "window option \<Rightarrow> nat" where
  "current_count w = (case w of None \<Rightarrow> 0 | Some v \<Rightarrow> request_count v)"

text \<open>
  Modelled from the spec: "the seconds remaining until the window resets" (section 4.1);
  with no live window a whole window length remains.
\<close>

definition seconds_until_reset :: "nat \<Rightarrow> nat \<Rightarrow> window option \<Rightarrow> nat" where
  "seconds_until_reset len now w =
     (case w of None \<Rightarrow> len | Some v \<Rightarrow> window_start v + len - now)"

text \<open>
  Modelled from the spec: "if under limit increment" (section 4.1): the live window counts
  one more request; without a live window a new one opens at the time of the call.
\<close>

definition increment :: "nat \<Rightarrow> window option \<Rightarrow> window option" where
  "increment now w =
     (case w of None \<Rightarrow> Some \<lparr>window_start = now, request_count = 1\<rparr>
      | Some v \<Rightarrow> Some (v\<lparr>request_count := request_count v + 1\<rparr>))"

text \<open>
  Modelled from the spec: the stored windows of a caller; a caller never seen has none.
\<close>

definition windows_of :: "RateLimitCounters \<Rightarrow> caller_id \<Rightarrow> caller_windows" where
  "windows_of cs who =
     (case cs who of None \<Rightarrow> \<lparr>minute_window = None, hour_window = None\<rparr>
      | Some cw \<Rightarrow> cw)"

text \<open>
  Modelled from the spec: \<open>check_and_increment(caller_id) -> Allowed |
  Denied(retry_after)\<close> of the Rate Limiter (section 4.1): prune expired windows,
  compare the current count to the cap, increment and allow when under it, otherwise deny
  with the seconds until the window resets. The counters are returned updated; one call is
  one atomic step.
\<close>

definition check_and_increment ::
  "rate_config \<Rightarrow> nat \<Rightarrow> caller_id \<Rightarrow> RateLimitCounters \<Rightarrow> decision \<times> RateLimitCounters" where
  "check_and_increment cfg now who cs =
     (let m = prune 60 now (minute_window (windows_of cs who));
          h = prune 3600 now (hour_window (windows_of cs who))
      in if per_minute cfg \<le> current_count m then
           (Denied (seconds_until_reset 60 now m),
            cs(who \<mapsto> \<lparr>minute_window = m, hour_window = h\<rparr>))
         else if per_hour cfg \<le> current_count h then
           (Denied (seconds_until_reset 3600 now h),
            cs(who \<mapsto> \<lparr>minute_window = m, hour_window = h\<rparr>))
         else
           (Allowed,
            cs(who \<mapsto> \<lparr>minute_window = increment now m,
                                  hour_window = increment now h\<rparr>)))"







subsection \<open>Provider adapters, health and the Failover Controller\<close>

text \<open>
  Modelled from the spec: the failures of a Provider Adapter (section 4.4).
\<close>

datatype adapter_error = TransientError | RateLimitedError | AuthError | MalformedResponseError

text \<open>
  Modelled from the spec: section 4.4 and 4.5: only \<open>TransientError\<close> and
  \<open>RateLimitedError\<close> are retried on the same adapter.
\<close>

fun retryable :: "adapter_error \<Rightarrow> bool" where
  "retryable TransientError = True"
| "retryable RateLimitedError = True"
| "retryable AuthError = False"
| "retryable MalformedResponseError = False"

text \<open>
  Modelled from the spec: ProviderResult (section 3).
\<close>

record ProviderResult =
  provider :: string
  payload :: string
  token_count :: nat
  latency_ms :: nat
  succeeded :: bool

text \<open>
  Modelled from the spec: what one call of an adapter's operation gives: a failure of
  section 4.4 or a ProviderResult.
\<close>

type_synonym reply = "adapter_error + ProviderResult"

text \<open>
  Modelled from the spec: a Provider Adapter (section 4.4) as the controller sees it during
  one \<open>execute\<close>: the operation and its input are fixed, and the backends are
  black boxes, so the adapter is the reply to each successive attempt, numbered from 0. A
  call that exceeds its timeout replies \<open>TransientError\<close>.
\<close>

type_synonym adapter = "nat \<Rightarrow> reply"

text \<open>
  Modelled from the spec: the outcome recorded per provider in the attempt trail (sections 3
  and 4.5).
\<close>

datatype attempt_outcome = Success | Failure adapter_error | Circuit_open

text \<open>
  Modelled from the spec: the attempt trail, an ordered list of {provider, outcome} (section
  3).
\<close>

type_synonym attempt_trail = "(string \<times> attempt_outcome) list"

text \<open>
  Modelled from the spec: ProviderHealth (section 3).
\<close>

record ProviderHealth =
  consecutive_failures :: nat
  circuit_open :: bool
  last_failure :: "nat option"
  cooldown_until :: nat

text \<open>
  Modelled from the spec: the health of an adapter that has not failed yet.
\<close>

definition initial_health :: ProviderHealth where
  "initial_health =
     \<lparr>consecutive_failures = 0, circuit_open = False, last_failure = None, cooldown_until = 0\<rparr>"

text \<open>
  Modelled from the spec: the controller's part of the configuration surface (section 6):
  circuit-breaker threshold, retry count, cool-down duration and the cap on its growth
  (section 9).
\<close>

record failover_config =
  threshold :: nat
  max_retries :: nat
  cooldown :: nat
  cooldown_cap :: nat

text \<open>
  Modelled from the spec: the Provider Registry (section 4.5), the adapters' names in
  priority order with a ProviderHealth per adapter.
\<close>

record registry =
  adapter_order :: "string list"
  health :: "string \<Rightarrow> ProviderHealth"

text \<open>
  Modelled from the spec: the three states of the per-adapter state machine (section 4.5).
\<close>

datatype circuit = Closed | Open | HalfOpen

text \<open>
  Modelled from the spec: section 4.5: the circuit is open when the consecutive-failure
  count has reached the threshold and the current time is before cool-down-until; once the
  cool-down has expired the adapter is half-open; below the threshold it is closed.
\<close>

definition circuit_state :: "failover_config \<Rightarrow> nat \<Rightarrow> ProviderHealth \<Rightarrow> circuit" where
  "circuit_state cfg now h =
     (if threshold cfg \<le> consecutive_failures h
      then (if now < cooldown_until h then Open else HalfOpen)
      else Closed)"

text \<open>
  Modelled from the spec: "invoke the operation with bounded retries ... only for
  TransientError/RateLimitedError" (section 4.5): the replies of the attempts made, starting
  at attempt \<open>i\<close> with \<open>k\<close> retries left. Backoff and jitter only
  delay the next attempt and are not part of the result.
\<close>

fun attempts :: "adapter \<Rightarrow> nat \<Rightarrow> nat \<Rightarrow> reply list" where
  "attempts g i 0 = [g i]"
| "attempts g i (Suc k) =
     (case g i of
        Inr r \<Rightarrow> [Inr r]
      | Inl e \<Rightarrow> if retryable e then Inl e # attempts g (Suc i) k else [Inl e])"

text \<open>
  Modelled from the spec: section 4.5: 2 retries by default (here the configured number) for
  a closed adapter; a half-open adapter is "eligible for exactly one probe attempt", so it
  gets no retry.
\<close>

fun retry_budget :: "failover_config \<Rightarrow> circuit \<Rightarrow> nat" where
  "retry_budget cfg HalfOpen = 0"
| "retry_budget cfg st = max_retries cfg"

text \<open>
  Modelled from the spec: the attempts made on one adapter that is not skipped.
\<close>

definition invoke :: "failover_config \<Rightarrow> circuit \<Rightarrow> adapter \<Rightarrow> reply list" where
  "invoke cfg st g = attempts g 0 (retry_budget cfg st)"

text \<open>
  Modelled from the spec: "on success, reset that adapter's failure count to zero and close
  its circuit" (section 4.5).
\<close>

definition on_success :: "ProviderHealth \<Rightarrow> ProviderHealth" where
  "on_success h = h\<lparr>consecutive_failures := 0, circuit_open := False\<rparr>"

text \<open>
  Modelled from the spec: the cool-down window set when the circuit was last opened, read
  off the two timestamps of ProviderHealth.
\<close>

definition previous_window :: "ProviderHealth \<Rightarrow> nat" where
  "previous_window h = (case last_failure h of None \<Rightarrow> 0 | Some t \<Rightarrow> cooldown_until h - t)"

text \<open>
  Modelled from the spec: the backoff window of section 4.5: the configured cool-down when a
  closed circuit opens, and "a (capped) longer cool-down" after a failed probe; longer is
  taken as twice the previous window, capped (the spec leaves the growth and the cap to the
  implementation).
\<close>

definition backoff_window :: "failover_config \<Rightarrow> nat \<Rightarrow> ProviderHealth \<Rightarrow> nat" where
  "backoff_window cfg now h =
     (if circuit_state cfg now h = HalfOpen
      then min (cooldown_cap cfg) (2 * previous_window h)
      else min (cooldown_cap cfg) (cooldown cfg))"

text \<open>
  Modelled from the spec: "increment the adapter's consecutive-failure count, open the
  circuit and set cool-down-until = now + backoff window if the threshold is reached"
  (section 4.5).
\<close>

definition on_failure :: "failover_config \<Rightarrow> nat \<Rightarrow> ProviderHealth \<Rightarrow> ProviderHealth" where
  "on_failure cfg now h =
     (if threshold cfg \<le> Suc (consecutive_failures h)
      then h\<lparr>consecutive_failures := Suc (consecutive_failures h), circuit_open := True,
             last_failure := Some now, cooldown_until := now + backoff_window cfg now h\<rparr>
      else h\<lparr>consecutive_failures := Suc (consecutive_failures h), last_failure := Some now\<rparr>)"

text \<open>
  Modelled from the spec: what the controller concludes from one adapter: skipped, succeeded
  with a result, or failed with the last error.
\<close>

datatype verdict = Skipped | Won ProviderResult | Lost adapter_error

text \<open>
  Modelled from the spec: the outcome written to the attempt trail for a verdict.
\<close>

fun trail_outcome :: "verdict \<Rightarrow> attempt_outcome" where
  "trail_outcome Skipped = Circuit_open"
| "trail_outcome (Won r) = Success"
| "trail_outcome (Lost e) = Failure e"

text \<open>
  Modelled from the spec: section 4.5, one adapter of the iteration: skip it when its
  circuit is open; otherwise invoke it with its retry budget and update its health from the
  last reply. Returns the verdict, the replies of the attempts made and the new health.
\<close>

definition visit ::
  "failover_config \<Rightarrow> nat \<Rightarrow> adapter \<Rightarrow> ProviderHealth \<Rightarrow> verdict \<times> reply list \<times> ProviderHealth" where
  "visit cfg now g h =
     (case circuit_state cfg now h of
        Open \<Rightarrow> (Skipped, [], h)
      | st \<Rightarrow>
          (let log = invoke cfg st g in
           case last log of
             Inr r \<Rightarrow> (Won r, log, on_success h)
           | Inl e \<Rightarrow> (Lost e, log, on_failure cfg now h)))"

text \<open>
  Modelled from the spec: section 4.5, the iteration over the adapters in order: the first
  success wins and no further adapter is tried; a failed or skipped adapter is recorded and
  the next one is tried. Returns the winning result if any, the attempt trail, the health
  records and every call made, in order.
\<close>

fun failover ::
  "failover_config \<Rightarrow> nat \<Rightarrow> (string \<Rightarrow> adapter) \<Rightarrow> string list \<Rightarrow> (string \<Rightarrow> ProviderHealth) \<Rightarrow>
     ProviderResult option \<times> attempt_trail \<times> (string \<Rightarrow> ProviderHealth) \<times> (string \<times> reply) list" where
  "failover cfg now adapters [] hs = (None, [], hs, [])"
| "failover cfg now adapters (a # rest) hs =
     (case visit cfg now (adapters a) (hs a) of
        (Won r, log, h') \<Rightarrow> (Some r, [(a, Success)], hs(a := h'), map (Pair a) log)
      | (v, log, h') \<Rightarrow>
          (case failover cfg now adapters rest (hs(a := h')) of
             (res, trail, hs', calls) \<Rightarrow>
               (res, (a, trail_outcome v) # trail, hs', map (Pair a) log @ calls)))"

text \<open>
  Modelled from the spec: "a caller-supplied provider hint reorders the list to try the
  hinted adapter first for this call only" (section 4.5); a hint that names no registered
  adapter changes nothing.
\<close>

definition effective_order :: "string option \<Rightarrow> string list \<Rightarrow> string list" where
  "effective_order hint order =
     (case hint of
        None \<Rightarrow> order
      | Some h \<Rightarrow> if h \<in> set order then h # filter (\<lambda>a. a \<noteq> h) order else order)"

text \<open>
  Modelled from the spec: the error taxonomy of section 7, with
  \<open>InvalidBrandError\<close> (section 4.2), \<open>UnsupportedCombinationError\<close>
  (section 4.3) and the \<open>NotFound\<close> of the brand lookup (section 6).
\<close>

datatype engine_error =
    ValidationError
  | RateLimited nat
  | BrandNotFound
  | InvalidBrandError
  | UnsupportedCombinationError
  | AllProvidersUnavailableError attempt_trail

text \<open>
  Modelled from the spec: what one \<open>execute\<close> leaves behind: its outcome, the
  registry after the call and the calls made to adapters.
\<close>

record execution =
  outcome :: "engine_error + ProviderResult \<times> attempt_trail"
  registry_after :: registry
  invocations :: "(string \<times> reply) list"

text \<open>
  Modelled from the spec: \<open>execute(operation, prompt_or_content) -> (ProviderResult,
  attempt_trail)\<close> of the Failover Controller (section 4.5). It fails with
  \<open>AllProvidersUnavailableError\<close>, which carries the full attempt trail, when
  every adapter is exhausted or skipped.
\<close>

definition execute ::
  "failover_config \<Rightarrow> nat \<Rightarrow> string option \<Rightarrow> (string \<Rightarrow> adapter) \<Rightarrow> registry \<Rightarrow> execution" where
  "execute cfg now hint adapters reg =
     (case failover cfg now adapters (effective_order hint (adapter_order reg)) (health reg) of
        (res, trail, hs', calls) \<Rightarrow>
          \<lparr>outcome = (case res of None \<Rightarrow> Inl (AllProvidersUnavailableError trail)
                               | Some r \<Rightarrow> Inr (r, trail)),
           registry_after = reg\<lparr>health := hs'\<rparr>,
           invocations = calls\<rparr>)"

text \<open>
  Modelled from the spec: the attempt trail an outcome of \<open>execute\<close> carries.
\<close>

fun attempt_trail_of :: "engine_error + ProviderResult \<times> attempt_trail \<Rightarrow> attempt_trail" where
  "attempt_trail_of (Inl (AllProvidersUnavailableError trail)) = trail"
| "attempt_trail_of (Inl e) = []"
| "attempt_trail_of (Inr (r, trail)) = trail"

text \<open>
  Modelled from the spec: an adapter that is "exhausted" (section 4.5): every attempt up to
  the retry budget fails with a retryable error, or a non-retryable error occurs.
\<close>

fun exhausts :: "adapter \<Rightarrow> nat \<Rightarrow> nat \<Rightarrow> bool" where
  "exhausts g i 0 = isl (g i)"
| "exhausts g i (Suc k) =
     (case g i of Inr r \<Rightarrow> False | Inl e \<Rightarrow> if retryable e then exhausts g (Suc i) k else True)"

text \<open>
  Modelled from the spec: an adapter that is "exhausted or skipped" at \<open>now\<close>
  (section 4.5).
\<close>

definition unavailable :: "failover_config \<Rightarrow> nat \<Rightarrow> adapter \<Rightarrow> ProviderHealth \<Rightarrow> bool" where
  "unavailable cfg now g h \<longleftrightarrow>
     circuit_state cfg now h = Open \<or>
     exhausts g 0 (retry_budget cfg (circuit_state cfg now h))"

subsection \<open>Context Assembler, Prompt Builder and Generation Pipeline\<close>

text \<open>
  Modelled from the spec: the content-type enum of GenerationRequest (section 3); the README
  lists the same six.
\<close>

datatype content_type =
  social_post | banner_ad | video_script | email_campaign | blog_post | product_description

text \<open>
  Modelled from the spec: the platform enum of GenerationRequest (section 3); the README
  lists the same six.
\<close>

datatype platform = instagram | facebook | twitter | linkedin | tiktok | custom

text \<open>
  Modelled from the spec: the members of the platform enum.
\<close>

definition all_platforms :: "platform list" where
  "all_platforms = [instagram, facebook, twitter, linkedin, tiktok, custom]"

text \<open>
  Modelled from the spec: a reference-material summary of BrandContext (section 3): kind,
  short description and extracted attributes.
\<close>

record reference_summary =
  kind :: string
  description :: string
  attributes :: "(string \<times> string) list"

text \<open>
  Modelled from the spec: a reference-material record as the external lookup returns it
  (section 6), with the attributes computed at upload time.
\<close>

record ReferenceMaterialRecord =
  material_kind :: string
  material_description :: string
  precomputed :: "(string \<times> string) list"
  file_path :: string

text \<open>
  Modelled from the spec: "condenses each reference-material record into a short descriptor
  (kind + description + any precomputed attributes)" (section 4.2).
\<close>

definition condense :: "ReferenceMaterialRecord \<Rightarrow> reference_summary" where
  "condense m =
     \<lparr>kind = material_kind m, description = material_description m,
      attributes = precomputed m\<rparr>"

text \<open>
  Modelled from the spec: the brand record of the external lookup (section 6); name and
  voice are required and may be missing.
\<close>

record BrandRecord =
  record_name :: "string option"
  record_voice :: "string option"
  record_palette :: "(string \<times> string) list"
  record_typography :: "(string \<times> string) list"
  record_pillars :: "string list"
  record_audience :: string
  record_values :: "string list"

text \<open>
  Modelled from the spec: BrandContext (section 3).
\<close>

record BrandContext =
  brand_name :: string
  voice :: string
  color_palette :: "(string \<times> string) list"
  typography :: "(string \<times> string) list"
  messaging_pillars :: "string list"
  target_audience :: string
  brand_values :: "string list"
  reference_materials :: "reference_summary list"

text \<open>
  Modelled from the spec: GenerationRequest (section 3).
\<close>

record GenerationRequest =
  caller :: caller_id
  brand_ref :: nat
  requested_type :: content_type
  target_platform :: platform
  brief :: string
  additional_context :: "(string \<times> string) list"
  preferred_provider :: "string option"

text \<open>
  Modelled from the spec: PromptSpec (section 3).
\<close>

record PromptSpec =
  system_instructions :: string
  user_instructions :: string
  output_format :: "string option"

text \<open>
  Modelled from the spec: GenerationResult (section 3).
\<close>

record GenerationResult =
  chosen_provider :: string
  generated :: string
  attempt_trail :: attempt_trail
  timestamp :: nat

text \<open>
  Modelled from the spec: \<open>build(brand_record, reference_materials) ->
  BrandContext\<close> of the Context Assembler (section 4.2): copies the brand fields,
  condenses the reference materials, and fails with \<open>InvalidBrandError\<close> when
  name or voice is missing.
\<close>

definition assemble ::
  "BrandRecord \<Rightarrow> ReferenceMaterialRecord list \<Rightarrow> engine_error + BrandContext" where
  "assemble b refs =
     (case (record_name b, record_voice b) of
        (Some n, Some v) \<Rightarrow>
          Inr \<lparr>brand_name = n, voice = v, color_palette = record_palette b,
               typography = record_typography b, messaging_pillars = record_pillars b,
               target_audience = record_audience b, brand_values = record_values b,
               reference_materials = map condense refs\<rparr>
      | _ \<Rightarrow> Inl InvalidBrandError)"

text \<open>
  Modelled from the spec: a registered template (section 4.3): the content-type structure,
  the platform overlay and an optional output-format hint.
\<close>

record template =
  structure_rules :: string
  platform_rules :: string
  format_hint :: "string option"

text \<open>
  Modelled from the spec: the templates the Prompt Builder has registered (section 4.3):
  pairings of content type and platform, and the default/generic fallback templates per
  platform.
\<close>

record template_registry =
  pairings :: "((content_type \<times> platform) \<times> template) list"
  generic :: "(platform \<times> template) list"

text \<open>
  Modelled from the spec: section 4.3, (a) and (b): the template registered for the pair of
  content type and platform, else the generic fallback of the platform.
\<close>

definition select_template :: "template_registry \<Rightarrow> content_type \<Rightarrow> platform \<Rightarrow> template option" where
  "select_template reg ct p =
     (case map_of (pairings reg) (ct, p) of
        Some t \<Rightarrow> Some t
      | None \<Rightarrow> map_of (generic reg) p)"


text \<open>
  Modelled from the spec: list items written with a separator, for the interpolation of
  section 4.3 (c) and (d).
\<close>

fun join :: "string \<Rightarrow> string list \<Rightarrow> string" where
  "join sep [] = []"
| "join sep [x] = x"
| "join sep (x # y # ys) = x @ sep @ join sep (y # ys)"

text \<open>
  Modelled from the spec: section 4.3 (c): brand voice, values and messaging pillars
  interpolated into the system instructions.
\<close>

definition brand_section :: "BrandContext \<Rightarrow> string" where
  "brand_section ctx =
     ''[BRAND] '' @ brand_name ctx @ '' | voice: '' @ voice ctx
       @ '' | values: '' @ join '', '' (brand_values ctx)
       @ '' | messaging pillars: '' @ join '', '' (messaging_pillars ctx)"

text \<open>
  Modelled from the spec: section 4.3 (d): the brief and the additional-context pairs,
  verbatim and delimited from the brand instructions.
\<close>

definition brief_section :: "GenerationRequest \<Rightarrow> string" where
  "brief_section req =
     ''[BRIEF] '' @ brief req @ '' [ADDITIONAL CONTEXT] ''
       @ join ''; '' (map (\<lambda>(k, v). k @ '': '' @ v) (additional_context req))"

text \<open>
  Modelled from the spec: \<open>build(request, context) -> PromptSpec\<close> of the Prompt
  Builder (section 4.3). It fails with \<open>UnsupportedCombinationError\<close> when no
  template is registered for the content type and platform.
\<close>

definition build :: "template_registry \<Rightarrow> GenerationRequest \<Rightarrow> BrandContext \<Rightarrow> engine_error + PromptSpec" where
  "build reg req ctx =
     (case select_template reg (requested_type req) (target_platform req) of
        None \<Rightarrow> Inl UnsupportedCombinationError
      | Some t \<Rightarrow>
          Inr \<lparr>system_instructions =
                 brand_section ctx @ '' [STRUCTURE] '' @ structure_rules t
                   @ '' [PLATFORM] '' @ platform_rules t,
               user_instructions = brief_section req,
               output_format = format_hint t\<rparr>)"


text \<open>
  Modelled from the spec: the configuration surface of section 6 as far as the pipeline uses
  it.
\<close>

record engine_config =
  rate :: rate_config
  breaker :: failover_config
  templates :: template_registry

text \<open>
  Modelled from the spec: the external collaborators of section 6 (brand and
  reference-material lookup) and the backends behind the adapters: \<open>generate a
  prompt\<close> is adapter \<open>a\<close> answering the generate operation on that
  prompt.
\<close>

record collaborators =
  get_brand :: "nat \<Rightarrow> BrandRecord option"
  get_reference_materials :: "nat \<Rightarrow> ReferenceMaterialRecord list"
  generate :: "string \<Rightarrow> PromptSpec \<Rightarrow> adapter"

text \<open>
  Modelled from the spec: the state shared across requests (section 5), rate-limit counters
  and provider registry, and what the persistence collaborator has been handed (section 6).
\<close>

record engine =
  counters :: RateLimitCounters
  providers :: registry
  persisted :: "GenerationResult list"

text \<open>
  Modelled from the spec: \<open>generate_content(request) -> GenerationResult\<close> of
  the Generation Pipeline (section 4.6): validate the request (the brief is non-empty),
  check the rate limit, resolve and assemble the brand context, build the PromptSpec, run
  the Failover Controller, wrap the winning result with the attempt trail and hand it to
  persistence. A failure at any step is returned at once.
\<close>

definition generate_content ::
  "engine_config \<Rightarrow> collaborators \<Rightarrow> nat \<Rightarrow> GenerationRequest \<Rightarrow> engine \<Rightarrow>
     (engine_error + GenerationResult) \<times> engine" where
  "generate_content cfg env now req st =
     (if brief req = [] then (Inl ValidationError, st)
      else
        case check_and_increment (rate cfg) now (caller req) (counters st) of
          (Denied retry_after, c') \<Rightarrow> (Inl (RateLimited retry_after), st\<lparr>counters := c'\<rparr>)
        | (Allowed, c') \<Rightarrow>
            (case get_brand env (brand_ref req) of
               None \<Rightarrow> (Inl BrandNotFound, st\<lparr>counters := c'\<rparr>)
             | Some b \<Rightarrow>
                 (case assemble b (get_reference_materials env (brand_ref req)) of
                    Inl e \<Rightarrow> (Inl e, st\<lparr>counters := c'\<rparr>)
                  | Inr ctx \<Rightarrow>
                      (case build (templates cfg) req ctx of
                         Inl e \<Rightarrow> (Inl e, st\<lparr>counters := c'\<rparr>)
                       | Inr prompt \<Rightarrow>
                           (let x = execute (breaker cfg) now (preferred_provider req)
                                      (\<lambda>a. generate env a prompt) (providers st)
                            in case outcome x of
                                 Inl e \<Rightarrow>
                                   (Inl e, st\<lparr>counters := c', providers := registry_after x\<rparr>)
                               | Inr (r, trail) \<Rightarrow>
                                   (let g = \<lparr>chosen_provider = provider r, generated = payload r,
                                             attempt_trail = trail, timestamp = now\<rparr>
                                    in (Inr g,
                                        st\<lparr>counters := c', providers := registry_after x,
                                           persisted := persisted st @ [g]\<rparr>)))))))"

subsection \<open>Data for concrete runs\<close>

text \<open>
  Modelled from the spec: a controller configuration with the defaults the spec names
  (threshold 3, 2 retries); the cool-down of 30 seconds and the cap of 120 seconds are
  example values.
\<close>

definition standard_breaker :: failover_config where
  "standard_breaker = \<lparr>threshold = 3, max_retries = 2, cooldown = 30, cooldown_cap = 120\<rparr>"

text \<open>
  Modelled from the spec: the registry of the README, Claude first and Gemini as fallback,
  both healthy.
\<close>

definition two_providers :: registry where
  "two_providers = \<lparr>adapter_order = [''claude'', ''gemini''], health = (\<lambda>a. initial_health)\<rparr>"

text \<open>
  Modelled from the spec: a result of the fallback provider.
\<close>

definition gemini_result :: ProviderResult where
  "gemini_result =
     \<lparr>provider = ''gemini'', payload = ''Meet the new dashboard.'', token_count = 12,
      latency_ms = 420, succeeded = True\<rparr>"

text \<open>
  Modelled from the spec: backends where the primary fails every attempt with the given
  error and the fallback succeeds.
\<close>

definition claude_down :: "adapter_error \<Rightarrow> string \<Rightarrow> adapter" where
  "claude_down e a i = (if a = ''claude'' then Inl e else Inr gemini_result)"

text \<open>
  Modelled from the spec: backends where every attempt on every adapter fails with
  \<open>TransientError\<close>.
\<close>

definition all_down :: "string \<Rightarrow> adapter" where
  "all_down a i = Inl TransientError"

text \<open>
  Modelled from the spec: the health of an adapter after it has failed at each of the given
  times, oldest first.
\<close>

definition failures :: "failover_config \<Rightarrow> nat list \<Rightarrow> ProviderHealth \<Rightarrow> ProviderHealth" where
  "failures cfg ts h = foldl (\<lambda>h' t. on_failure cfg t h') h ts"












text \<open>
  Modelled from the spec: a generic fallback template per platform, with the platform hints
  section 4.3 gives as examples.
\<close>

definition generic_template :: "platform \<Rightarrow> template" where
  "generic_template p =
     \<lparr>structure_rules = ''generic structure'',
      platform_rules =
        (case p of
           instagram \<Rightarrow> ''caption length limit''
         | twitter \<Rightarrow> ''hard character ceiling''
         | linkedin \<Rightarrow> ''professional register''
         | _ \<Rightarrow> ''no platform constraint''),
      format_hint = None\<rparr>"

text \<open>
  Modelled from the spec: a registry with a few pairings after the examples of section 4.3
  and a generic fallback for every platform.
\<close>

definition default_templates :: template_registry where
  "default_templates =
     \<lparr>pairings =
        [((social_post, instagram),
          \<lparr>structure_rules = ''short-form, hook-first'',
           platform_rules = ''caption length limit'',
           format_hint = Some ''JSON {headline, body, hashtags}''\<rparr>),
         ((social_post, twitter),
          \<lparr>structure_rules = ''short-form, hook-first'',
           platform_rules = ''hard character ceiling'',
           format_hint = Some ''JSON {headline, body, hashtags}''\<rparr>),
         ((video_script, tiktok),
          \<lparr>structure_rules = ''scene/beat structure'',
           platform_rules = ''no platform constraint'',
           format_hint = None\<rparr>),
         ((email_campaign, custom),
          \<lparr>structure_rules = ''subject + body'',
           platform_rules = ''no platform constraint'',
           format_hint = Some ''JSON {subject, body}''\<rparr>)],
      generic = map (\<lambda>p. (p, generic_template p)) all_platforms\<rparr>"


text \<open>
  Modelled from the spec: the default configuration.
\<close>

definition standard_config :: engine_config where
  "standard_config =
     \<lparr>rate = default_rate_config, breaker = standard_breaker, templates = default_templates\<rparr>"

text \<open>
  The brand of the README's usage example.
\<close>

definition techcorp :: BrandRecord where
  "techcorp =
     \<lparr>record_name = Some ''TechCorp'',
      record_voice = Some ''Professional, friendly'',
      record_palette = [(''primary'', ''#007bff''), (''secondary'', ''#6c757d'')],
      record_typography = [(''primary_font'', ''Helvetica Neue'')],
      record_pillars = [''Innovation leadership'', ''Reliable technology''],
      record_audience = ''Business decision makers'',
      record_values = [''Innovation'', ''Reliability'']\<rparr>"

text \<open>
  Modelled from the spec: the BrandContext of that brand.
\<close>

definition techcorp_context :: BrandContext where
  "techcorp_context =
     \<lparr>brand_name = ''TechCorp'', voice = ''Professional, friendly'',
      color_palette = [(''primary'', ''#007bff''), (''secondary'', ''#6c757d'')],
      typography = [(''primary_font'', ''Helvetica Neue'')],
      messaging_pillars = [''Innovation leadership'', ''Reliable technology''],
      target_audience = ''Business decision makers'',
      brand_values = [''Innovation'', ''Reliability''],
      reference_materials = []\<rparr>"

text \<open>
  Modelled from the spec: the request of Example 1 (section 8).
\<close>

definition launch_request :: GenerationRequest where
  "launch_request =
     \<lparr>caller = ''user-1'', brand_ref = 1, requested_type = social_post,
      target_platform = instagram, brief = ''Announce new dashboard'',
      additional_context = [], preferred_provider = None\<rparr>"

text \<open>
  Modelled from the spec: collaborators that know the brand while every backend is down.
\<close>

definition outage :: collaborators where
  "outage =
     \<lparr>get_brand = (\<lambda>i. if i = 1 then Some techcorp else None),
      get_reference_materials = (\<lambda>i. []),
      generate = (\<lambda>a prompt. all_down a)\<rparr>"

text \<open>
  Modelled from the spec: the engine before any request.
\<close>

definition fresh_engine :: engine where
  "fresh_engine = \<lparr>counters = Map.empty, providers = two_providers, persisted = []\<rparr>"

text \<open>
  Modelled from the spec: the PromptSpec of Example 1 (section 8) under the default
  templates.
\<close>

definition launch_prompt :: PromptSpec where
  "launch_prompt =
     \<lparr>system_instructions =
        ''[BRAND] TechCorp | voice: Professional, friendly | values: Innovation, Reliability''
        @ '' | messaging pillars: Innovation leadership, Reliable technology''
        @ '' [STRUCTURE] short-form, hook-first [PLATFORM] caption length limit'',
      user_instructions = ''[BRIEF] Announce new dashboard [ADDITIONAL CONTEXT] '',
      output_format = Some ''JSON {headline, body, hashtags}''\<rparr>"






section \<open>Properties of the front end\<close>

text \<open>
  C10. With a null user, \<open>App\<close> routes \<open>/login\<close> to the login page, \<open>/register\<close> to the
  registration page and every other location to a redirect to \<open>/login\<close>; hence whenever
  one of the pages Dashboard, Brands, ContentGeneration or Campaigns is rendered, the user
  is not null.
\<close>

theorem App_null_user_routes:
  "routed (App m None loc) =
     Some (if m ''/login'' loc then Login
           else if m ''/register'' loc then Register
           else Navigate ''/login'')
   \<and> (routed (App m usr loc) = Some e \<and> authenticated_page e \<longrightarrow> usr \<noteq> None)"
  by (cases usr) (auto simp: App_def split: if_splits)

theorem App_null_user_routes_witness:
  "routed (App exact_match None ''/brands'') = Some (Navigate ''/login'')
   \<and> routed (App exact_match (Some alice) ''/brands'') = Some Brands
   \<and> authenticated_page Brands
   \<and> Some alice \<noteq> None"
  using App_null_user_routes [of exact_match "''/brands''" "Some alice" Brands]
  by (simp add: exact_match_def App_def)

text \<open>
  C9, as stated: on a rejected request \<open>login\<close> returns the server's detail whenever the
  reply carries one. It does not when the detail is the empty string: the detail is there,
  and the caller gets \<open>Login failed\<close>.
\<close>

theorem login_empty_detail_counterexample:
  "error_detail empty_detail = Str []
   \<and> error_detail empty_detail \<noteq> Undefined
   \<and> error (fst (login (\<lambda>form. Rejected empty_detail) ''alice'' ''secret'' fresh_browser))
       = Str ''Login failed''
   \<and> error (fst (login (\<lambda>form. Rejected empty_detail) ''alice'' ''secret'' fresh_browser))
       \<noteq> error_detail empty_detail"
  by (simp add: login_def error_detail_def empty_detail_def js_or_def)

text \<open>
  C9, amended. When the authentication request rejects, \<open>login\<close> returns
  \<open>{success: false, error: e}\<close> where \<open>e\<close> is the reply's detail when that is truthy (present
  and not an empty string, zero, false or null) and the string \<open>Login failed\<close> otherwise,
  and the browser state is returned as it was: \<open>localStorage\<close>, the axios default headers
  and the stored auth state are unchanged.
\<close>

theorem login_rejected:
  assumes "post [(''username'', uname), (''password'', password)] = Rejected e"
  shows "login post uname password w =
           (\<lparr>success = False,
             error = (if truthy (error_detail e) then error_detail e else Str ''Login failed'')\<rparr>,
            w)"
  using assms by (simp add: login_def js_or_def)

theorem login_rejected_witness:
  "login (\<lambda>form. Rejected bad_credentials) ''alice'' ''wrong'' fresh_browser =
     (\<lparr>success = False, error = Str ''Incorrect username or password''\<rparr>, fresh_browser)"
  using login_rejected [of "\<lambda>form. Rejected bad_credentials" "''alice''" "''wrong''"
      bad_credentials fresh_browser]
  by (simp add: error_detail_def bad_credentials_def)

section \<open>Properties of the Rate Limiter\<close>












section \<open>Properties of the Failover Controller\<close>

lemma attempts_nonempty: "attempts g i k \<noteq> []"
  by (induction k arbitrary: i) (auto split: sum.splits)

lemma attempts_length: "length (attempts g i k) \<le> Suc k"
  by (induction k arbitrary: i) (auto split: sum.splits)

lemma attempts_butlast_errors: "x \<in> set (butlast (attempts g i k)) \<Longrightarrow> isl x"
proof (induction k arbitrary: i)
  case 0
  then show ?case by simp
next
  case (Suc k)
  show ?case
  proof (cases "g i")
    case (Inl e)
    show ?thesis
    proof (cases "retryable e")
      case True
      with Inl have "butlast (attempts g i (Suc k)) = Inl e # butlast (attempts g (Suc i) k)"
        by (simp add: attempts_nonempty)
      with Suc.prems have "x = Inl e \<or> x \<in> set (butlast (attempts g (Suc i) k))"
        by simp
      then show ?thesis using Suc.IH by auto
    next
      case False
      with Inl Suc.prems show ?thesis by simp
    qed
  next
    case (Inr r)
    with Suc.prems show ?thesis by simp
  qed
qed

lemma attempts_answers: "attempts g i k = map g [i..<i + length (attempts g i k)]"
proof (induction k arbitrary: i)
  case 0
  then show ?case by simp
next
  case (Suc k)
  show ?case
  proof (cases "g i")
    case (Inl e)
    show ?thesis
    proof (cases "retryable e")
      case True
      have "attempts g (Suc i) k = map g [Suc i..<Suc i + length (attempts g (Suc i) k)]"
        by (rule Suc.IH)
      with Inl True show ?thesis by (simp add: upt_rec)
    next
      case False
      with Inl show ?thesis by simp
    qed
  next
    case (Inr r)
    then show ?thesis by simp
  qed
qed



lemma attempts_success: "g i = Inr r \<Longrightarrow> attempts g i k = [Inr r]"
  by (cases k) auto

lemma invoke_nonempty: "invoke cfg st g \<noteq> []"
  by (simp add: invoke_def attempts_nonempty)

lemma invoke_butlast_errors: "x \<in> set (butlast (invoke cfg st g)) \<Longrightarrow> isl x"
  unfolding invoke_def by (rule attempts_butlast_errors)

lemma invoke_half_open: "invoke cfg HalfOpen g = [g 0]"
  by (simp add: invoke_def)

lemma visit_cases:
  assumes "visit cfg now g h = (v, log, h')"
  obtains
    (skipped) "circuit_state cfg now h = Open" "v = Skipped" "log = []" "h' = h"
  | (won) r where "circuit_state cfg now h \<noteq> Open" "v = Won r"
      "log = invoke cfg (circuit_state cfg now h) g" "last log = Inr r" "h' = on_success h"
  | (lost) e where "circuit_state cfg now h \<noteq> Open" "v = Lost e"
      "log = invoke cfg (circuit_state cfg now h) g" "last log = Inl e" "h' = on_failure cfg now h"
  using assms
  by (cases "circuit_state cfg now h";
      cases "last (invoke cfg (circuit_state cfg now h) g)")
     (auto simp: visit_def Let_def)

lemma visit_log_errors:
  assumes "visit cfg now g h = (v, log, h')" "x \<in> set (butlast log)"
  shows "isl x"
  using assms by (elim visit_cases) (auto dest: invoke_butlast_errors)

lemma visit_lost_log_errors:
  assumes "visit cfg now g h = (v, log, h')" "\<forall>r. v \<noteq> Won r" "x \<in> set log"
  shows "isl x"
proof -
  from assms(1) show ?thesis
  proof (cases rule: visit_cases)
    case skipped
    with assms(3) show ?thesis by simp
  next
    case (won r)
    with assms(2) show ?thesis by simp
  next
    case (lost e)
    have ne: "log \<noteq> []" using lost by (simp add: invoke_nonempty)
    then have "log = butlast log @ [last log]" by simp
    then have "x \<in> set (butlast log) \<or> x = last log"
      using assms(3) by (metis Un_iff empty_iff empty_set insert_iff list.simps(15) set_append)
    then show ?thesis
      using lost invoke_butlast_errors [of x cfg "circuit_state cfg now h" g] by auto
  qed
qed

lemma failover_none:
  "failover cfg now adapters order hs = (None, trail, hs', calls) \<Longrightarrow> map fst trail = order"
proof (induction order arbitrary: hs trail hs' calls)
  case Nil
  then show ?case by simp
next
  case (Cons a rest)
  obtain v log h' where v: "visit cfg now (adapters a) (hs a) = (v, log, h')"
    by (cases "visit cfg now (adapters a) (hs a)") auto
  obtain res t2 hs2 c2 where rec: "failover cfg now adapters rest (hs(a := h')) = (res, t2, hs2, c2)"
    by (cases "failover cfg now adapters rest (hs(a := h'))") auto
  from Cons.prems v rec have "res = None \<and> trail = (a, trail_outcome v) # t2"
    by (cases v) simp_all
  with Cons.IH rec show ?case by auto
qed

lemma failover_some:
  assumes "failover cfg now adapters order hs = (Some r, trail, hs', calls)"
  shows "\<exists>pre a post. order = pre @ a # post \<and> map fst trail = pre @ [a]
           \<and> snd (last trail) = Success \<and> (\<forall>e\<in>set (butlast trail). snd e \<noteq> Success)
           \<and> calls \<noteq> [] \<and> last calls = (a, Inr r) \<and> (\<forall>c\<in>set (butlast calls). isl (snd c))
           \<and> fst ` set calls \<subseteq> set (pre @ [a])"
  using assms
proof (induction order arbitrary: hs trail hs' calls)
  case Nil
  then show ?case by simp
next
  case (Cons a rest)
  obtain v log h' where v: "visit cfg now (adapters a) (hs a) = (v, log, h')"
    by (cases "visit cfg now (adapters a) (hs a)") auto
  show ?case
  proof (cases "\<exists>r'. v = Won r'")
    case True
    then obtain r' where w: "v = Won r'" by blast
    from Cons.prems v w have eq1: "r' = r" by simp
    from Cons.prems v w have eq2: "trail = [(a, Success)]" by simp
    from Cons.prems v w have eq3: "calls = map (Pair a) log" by simp
    have log: "log \<noteq> [] \<and> last log = Inr r'"
      using v
    proof (cases rule: visit_cases)
      case skipped
      with w show ?thesis by simp
    next
      case (won r2)
      with w invoke_nonempty [of cfg "circuit_state cfg now (hs a)" "adapters a"]
      show ?thesis by simp
    next
      case (lost e)
      with w show ?thesis by simp
    qed
    have "butlast calls = map (Pair a) (butlast log)"
      unfolding eq3 by (rule map_butlast [symmetric])
    then have c1: "\<forall>c\<in>set (butlast calls). isl (snd c)"
      using visit_log_errors [OF v] by auto
    have c2: "last calls = (a, Inr r)" using log eq1 eq3 by (simp add: last_map)
    have c3: "calls \<noteq> []" using log eq3 by simp
    have c4: "fst ` set calls \<subseteq> set ([] @ [a])" unfolding eq3 by auto
    have c5: "a # rest = [] @ a # rest" by simp
    have c6: "map fst trail = [] @ [a]" unfolding eq2 by simp
    have c7: "snd (last trail) = Success" unfolding eq2 by simp
    have c8: "\<forall>e\<in>set (butlast trail). snd e \<noteq> Success" unfolding eq2 by simp
    from c5 c6 c7 c8 c3 c2 c1 c4 show ?thesis by (intro exI conjI)
  next
    case False
    obtain res t2 hs2 c2 where rec: "failover cfg now adapters rest (hs(a := h')) = (res, t2, hs2, c2)"
      by (cases "failover cfg now adapters rest (hs(a := h'))") auto
    have eq: "res = Some r \<and> trail = (a, trail_outcome v) # t2 \<and> calls = map (Pair a) log @ c2"
      using Cons.prems v rec False by (cases v) simp_all
    from eq rec have "failover cfg now adapters rest (hs(a := h')) = (Some r, t2, hs2, c2)"
      by simp
    from Cons.IH [OF this]
    obtain pre b post where ih: "rest = pre @ b # post" "map fst t2 = pre @ [b]"
      "snd (last t2) = Success" "\<forall>e\<in>set (butlast t2). snd e \<noteq> Success"
      "c2 \<noteq> []" "last c2 = (b, Inr r)" "\<forall>c\<in>set (butlast c2). isl (snd c)"
      "fst ` set c2 \<subseteq> set (pre @ [b])"
      by blast
    have t2ne: "t2 \<noteq> []" using ih(2) by auto
    have vout: "trail_outcome v \<noteq> Success" using False by (cases v) auto
    have logerr: "\<forall>x\<in>set log. isl x"
      using visit_lost_log_errors [OF v] False by blast
    have d1: "a # rest = (a # pre) @ b # post" using ih(1) by simp
    have d2: "map fst trail = (a # pre) @ [b]" using eq ih(2) by simp
    have d3: "snd (last trail) = Success" using eq t2ne ih(3) by simp
    have d4: "\<forall>e\<in>set (butlast trail). snd e \<noteq> Success"
      using eq t2ne ih(4) vout by simp
    have d5: "calls \<noteq> []" using eq ih(5) by simp
    have d6: "last calls = (b, Inr r)" using eq ih(5,6) by simp
    have "butlast calls = map (Pair a) log @ butlast c2"
      using eq ih(5) by (simp add: butlast_append)
    then have d7: "\<forall>c\<in>set (butlast calls). isl (snd c)"
      using ih(7) logerr by auto
    have "set calls = Pair a ` set log \<union> set c2" using eq by simp
    then have d8: "fst ` set calls \<subseteq> set ((a # pre) @ [b])"
      using ih(8) by auto
    from d1 d2 d3 d4 d5 d6 d7 d8 show ?thesis by (intro exI conjI)
  qed
qed

lemma exhausts_last: "exhausts g i k \<longleftrightarrow> isl (last (attempts g i k))"
  by (induction k arbitrary: i) (simp_all add: attempts_nonempty split: sum.splits)

lemma visit_open: "circuit_state cfg now h = Open \<Longrightarrow> visit cfg now g h = (Skipped, [], h)"
  by (simp add: visit_def)



lemma visit_unavailable:
  assumes "unavailable cfg now g h" "visit cfg now g h = (v, log, h')"
  shows "v \<noteq> Won r"
proof
  assume w: "v = Won r"
  from assms(2) show False
  proof (cases rule: visit_cases)
    case skipped
    with w show ?thesis by simp
  next
    case (won r2)
    with assms(1) have "isl (last (invoke cfg (circuit_state cfg now h) g))"
      by (simp add: unavailable_def exhausts_last invoke_def)
    with won show ?thesis by simp
  next
    case (lost e)
    with w show ?thesis by simp
  qed
qed

lemma failover_step_lost:
  assumes "visit cfg now (adapters a) (hs a) = (v, log, h')" "\<forall>r. v \<noteq> Won r"
  shows "failover cfg now adapters (a # rest) hs =
           (case failover cfg now adapters rest (hs(a := h')) of
              (res, trail, hs', calls) \<Rightarrow>
                (res, (a, trail_outcome v) # trail, hs', map (Pair a) log @ calls))"
  using assms by (cases v) simp_all

lemma failover_step_won:
  assumes "visit cfg now (adapters a) (hs a) = (Won r, log, h')"
  shows "failover cfg now adapters (a # rest) hs =
           (Some r, [(a, Success)], hs(a := h'), map (Pair a) log)"
  using assms by simp

lemma failover_all_unavailable:
  assumes "distinct order" "\<forall>a\<in>set order. unavailable cfg now (adapters a) (hs a)"
  shows "fst (failover cfg now adapters order hs) = None"
  using assms
proof (induction order arbitrary: hs)
  case Nil
  then show ?case by simp
next
  case (Cons a rest)
  obtain v log h' where v: "visit cfg now (adapters a) (hs a) = (v, log, h')"
    by (cases "visit cfg now (adapters a) (hs a)") auto
  have nw: "\<forall>r. v \<noteq> Won r"
    using visit_unavailable [OF _ v] Cons.prems(2) by simp
  have "\<forall>b\<in>set rest. unavailable cfg now (adapters b) ((hs(a := h')) b)"
    using Cons.prems by auto
  moreover have "distinct rest" using Cons.prems(1) by simp
  ultimately have "fst (failover cfg now adapters rest (hs(a := h'))) = None"
    by (rule Cons.IH [rotated])
  then show ?case
    unfolding failover_step_lost [where adapters = adapters and hs = hs, OF v nw]
    by (cases "failover cfg now adapters rest (hs(a := h'))") simp
qed

lemma failover_open_skipped:
  assumes "circuit_state cfg now (hs a) = Open"
    and "failover cfg now adapters order hs = (res, trail, hs', calls)"
  shows "a \<notin> fst ` set calls \<and> hs' a = hs a \<and> (\<forall>out. (a, out) \<in> set trail \<longrightarrow> out = Circuit_open)"
  using assms
proof (induction order arbitrary: hs res trail hs' calls)
  case Nil
  then show ?case by simp
next
  case (Cons b rest)
  obtain v log h' where v: "visit cfg now (adapters b) (hs b) = (v, log, h')"
    by (cases "visit cfg now (adapters b) (hs b)") auto
  have own: "b = a \<Longrightarrow> v = Skipped \<and> log = [] \<and> h' = hs a"
    using v Cons.prems(1) by (simp add: visit_open)
  show ?case
  proof (cases "\<exists>r. v = Won r")
    case True
    then obtain r where w: "v = Won r" by blast
    with own have ba: "b \<noteq> a" by auto
    from Cons.prems(2) v w
    have "trail = [(b, Success)]" "hs' = hs(b := h')" "calls = map (Pair b) log"
      by simp_all
    with ba show ?thesis by auto
  next
    case False
    then have nw: "\<forall>r. v \<noteq> Won r" by blast
    obtain res2 t2 hs2 c2 where
      rec: "failover cfg now adapters rest (hs(b := h')) = (res2, t2, hs2, c2)"
      by (cases "failover cfg now adapters rest (hs(b := h'))") auto
    from Cons.prems(2) have eq: "trail = (b, trail_outcome v) # t2" "hs' = hs2"
      "calls = map (Pair b) log @ c2"
      unfolding failover_step_lost [where adapters = adapters and hs = hs, OF v nw] rec by simp_all
    have st: "circuit_state cfg now ((hs(b := h')) a) = Open"
      using own Cons.prems(1) by (cases "b = a") simp_all
    from Cons.IH [OF st rec]
    have ih: "a \<notin> fst ` set c2" "hs2 a = (hs(b := h')) a"
      "\<forall>out. (a, out) \<in> set t2 \<longrightarrow> out = Circuit_open"
      by simp_all
    have "a \<notin> fst ` set calls"
      using ih(1) eq(3) own by (cases "b = a") auto
    moreover have "hs' a = hs a"
      using ih(2) eq(2) own by (cases "b = a") simp_all
    moreover have "\<forall>out. (a, out) \<in> set trail \<longrightarrow> out = Circuit_open"
      using ih(3) eq(1) own by (cases "b = a") auto
    ultimately show ?thesis by simp
  qed
qed

lemma failover_trail_prefix:
  assumes "failover cfg now adapters order hs = (res, trail, hs', calls)"
  shows "\<exists>post. order = map fst trail @ post"
proof (cases res)
  case None
  with assms failover_none [of cfg now adapters order hs trail hs' calls] show ?thesis
    by simp
next
  case (Some r)
  with assms failover_some [of cfg now adapters order hs r trail hs' calls]
  obtain pre a post where "order = pre @ a # post" "map fst trail = pre @ [a]"
    by blast
  then have "order = map fst trail @ post" by simp
  then show ?thesis ..
qed

lemma failover_trail_head:
  assumes "failover cfg now adapters (a # rest) hs = (res, trail, hs', calls)"
  shows "trail \<noteq> [] \<and> fst (hd trail) = a"
proof -
  obtain v log h' where v: "visit cfg now (adapters a) (hs a) = (v, log, h')"
    by (cases "visit cfg now (adapters a) (hs a)") auto
  show ?thesis
  proof (cases "\<exists>r. v = Won r")
    case True
    with assms v show ?thesis by auto
  next
    case False
    then have nw: "\<forall>r. v \<noteq> Won r" by blast
    from assms show ?thesis
      unfolding failover_step_lost [where adapters = adapters and hs = hs, OF v nw] by (auto split: prod.splits)
  qed
qed

lemma failover_calls_head:
  assumes "failover cfg now adapters (a # rest) hs = (res, trail, hs', calls)"
    and "circuit_state cfg now (hs a) \<noteq> Open"
  shows "calls \<noteq> [] \<and> fst (hd calls) = a"
proof -
  obtain v log h' where v: "visit cfg now (adapters a) (hs a) = (v, log, h')"
    by (cases "visit cfg now (adapters a) (hs a)") auto
  have log: "log \<noteq> []"
    using v assms(2) by (cases rule: visit_cases) (simp_all add: invoke_nonempty)
  show ?thesis
  proof (cases "\<exists>r. v = Won r")
    case True
    with assms(1) v log show ?thesis by (auto simp: hd_map)
  next
    case False
    then have nw: "\<forall>r. v \<noteq> Won r" by blast
    from assms(1) log show ?thesis
      unfolding failover_step_lost [where adapters = adapters and hs = hs, OF v nw] by (auto split: prod.splits simp: hd_append hd_map)
  qed
qed

lemma effective_order_distinct:
  "distinct order \<Longrightarrow> distinct (effective_order hint order)"
  by (cases hint) (simp_all add: effective_order_def)

lemma effective_order_set: "set (effective_order hint order) = set order"
  by (cases hint) (auto simp: effective_order_def)

lemma effective_order_length:
  "distinct order \<Longrightarrow> length (effective_order hint order) = length order"
  using distinct_card [of order] distinct_card [of "effective_order hint order"]
    effective_order_distinct [of order hint] effective_order_set [of hint order]
  by simp

lemma effective_order_hint:
  "h \<in> set order \<Longrightarrow> effective_order (Some h) order = h # filter (\<lambda>a. a \<noteq> h) order"
  by (simp add: effective_order_def)





lemma standard_closed: "circuit_state standard_breaker now initial_health = Closed"
  by (simp add: circuit_state_def standard_breaker_def initial_health_def)





lemma execute_unfold:
  assumes "failover cfg now adapters (effective_order hint (adapter_order reg)) (health reg)
             = (res, trail, hs', calls)"
  shows "attempt_trail_of (outcome (execute cfg now hint adapters reg)) = trail"
    and "invocations (execute cfg now hint adapters reg) = calls"
    and "registry_after (execute cfg now hint adapters reg) = reg\<lparr>health := hs'\<rparr>"
    and "isl (outcome (execute cfg now hint adapters reg)) \<longleftrightarrow> res = None"
  using assms by (simp_all add: execute_def split: option.splits)

lemma execute_order_unchanged:
  "adapter_order (registry_after (execute cfg now hint adapters reg)) = adapter_order reg"
  by (cases "failover cfg now adapters (effective_order hint (adapter_order reg)) (health reg)")
     (simp add: execute_def)

lemma execute_trail_prefix:
  "\<exists>post. effective_order hint (adapter_order reg)
     = map fst (attempt_trail_of (outcome (execute cfg now hint adapters reg))) @ post"
proof -
  obtain res trail hs' calls where
    run: "failover cfg now adapters (effective_order hint (adapter_order reg)) (health reg)
            = (res, trail, hs', calls)"
    by (cases "failover cfg now adapters (effective_order hint (adapter_order reg)) (health reg)")
       auto
  from failover_trail_prefix [OF run] show ?thesis
    unfolding execute_unfold(1) [OF run] .
qed

text \<open>
  C7. A call with a preferred-provider hint leaves the registry's adapter order as it was.
  When the hint names a registered adapter, that adapter comes first in this call's order and
  in its attempt trail, and it receives the first call unless its circuit is open. Any later
  call without a hint walks the original priority order: its trail is a prefix of it.
\<close>

theorem execute_hint_this_call_only:
  "adapter_order (registry_after (execute cfg now hint adapters reg)) = adapter_order reg
   \<and> (hint = Some h \<and> h \<in> set (adapter_order reg) \<longrightarrow>
        effective_order hint (adapter_order reg) = h # filter (\<lambda>a. a \<noteq> h) (adapter_order reg)
        \<and> attempt_trail_of (outcome (execute cfg now hint adapters reg)) \<noteq> []
        \<and> fst (hd (attempt_trail_of (outcome (execute cfg now hint adapters reg)))) = h
        \<and> (circuit_state cfg now (health reg h) \<noteq> Open \<longrightarrow>
             invocations (execute cfg now hint adapters reg) \<noteq> []
             \<and> fst (hd (invocations (execute cfg now hint adapters reg))) = h))
   \<and> (\<exists>post. adapter_order reg
         = map fst (attempt_trail_of (outcome
             (execute cfg' now' None adapters'
                (registry_after (execute cfg now hint adapters reg))))) @ post)"
proof (intro conjI impI)
  show "adapter_order (registry_after (execute cfg now hint adapters reg)) = adapter_order reg"
    by (rule execute_order_unchanged)
next
  show "\<exists>post. adapter_order reg
         = map fst (attempt_trail_of (outcome
             (execute cfg' now' None adapters'
                (registry_after (execute cfg now hint adapters reg))))) @ post"
    using execute_trail_prefix
      [of None "registry_after (execute cfg now hint adapters reg)" cfg' now' adapters']
    by (simp add: execute_order_unchanged effective_order_def)
next
  assume h: "hint = Some h \<and> h \<in> set (adapter_order reg)"
  let ?rest = "filter (\<lambda>a. a \<noteq> h) (adapter_order reg)"
  show order: "effective_order hint (adapter_order reg) = h # ?rest"
    using h by (simp add: effective_order_def)
  obtain res trail hs' calls where
    run: "failover cfg now adapters (effective_order hint (adapter_order reg)) (health reg)
            = (res, trail, hs', calls)"
    by (cases "failover cfg now adapters (effective_order hint (adapter_order reg)) (health reg)")
       auto
  note hd = failover_trail_head [OF run [unfolded order]]
  show "attempt_trail_of (outcome (execute cfg now hint adapters reg)) \<noteq> []"
    unfolding execute_unfold(1) [OF run] using hd by simp
  show "fst (hd (attempt_trail_of (outcome (execute cfg now hint adapters reg)))) = h"
    unfolding execute_unfold(1) [OF run] using hd by simp
  assume "circuit_state cfg now (health reg h) \<noteq> Open"
  note hc = failover_calls_head [OF run [unfolded order] this]
  show "invocations (execute cfg now hint adapters reg) \<noteq> []"
    unfolding execute_unfold(2) [OF run] using hc by simp
  show "fst (hd (invocations (execute cfg now hint adapters reg))) = h"
    unfolding execute_unfold(2) [OF run] using hc by simp
qed

theorem execute_hint_this_call_only_witness:
  "adapter_order (registry_after
      (execute standard_breaker 1000 (Some ''gemini'') (claude_down TransientError) two_providers))
     = [''claude'', ''gemini'']
   \<and> fst (hd (attempt_trail_of (outcome
      (execute standard_breaker 1000 (Some ''gemini'') (claude_down TransientError) two_providers))))
     = ''gemini''
   \<and> fst (hd (invocations
      (execute standard_breaker 1000 (Some ''gemini'') (claude_down TransientError) two_providers)))
     = ''gemini''
   \<and> (\<exists>post. [''claude'', ''gemini'']
         = map fst (attempt_trail_of (outcome
             (execute standard_breaker 1001 None (claude_down TransientError)
                (registry_after
                  (execute standard_breaker 1000 (Some ''gemini'') (claude_down TransientError)
                     two_providers))))) @ post)"
  using execute_hint_this_call_only
    [of standard_breaker 1000 "Some ''gemini''" "claude_down TransientError" two_providers
        "''gemini''" standard_breaker 1001 "claude_down TransientError"]
  by (simp add: two_providers_def standard_closed)

lemma failures_count:
  "consecutive_failures (failures cfg ts h) = consecutive_failures h + length ts"
proof (induction ts arbitrary: h)
  case Nil
  then show ?case by (simp add: failures_def)
next
  case (Cons t ts)
  have "failures cfg (t # ts) h = failures cfg ts (on_failure cfg t h)"
    by (simp add: failures_def)
  moreover have "consecutive_failures (on_failure cfg t h) = Suc (consecutive_failures h)"
    by (simp add: on_failure_def)
  ultimately show ?case using Cons.IH [of "on_failure cfg t h"] by simp
qed



lemma closed_below_threshold:
  assumes "consecutive_failures h = 0" "k < threshold cfg" "k \<le> length ts"
  shows "circuit_state cfg now (failures cfg (take k ts) h) = Closed"
  using assms by (simp add: circuit_state_def failures_count min_def)








lemma execute_open_head:
  assumes "circuit_state cfg now (health reg a) = Open"
    and "effective_order hint (adapter_order reg) \<noteq> []"
    and "hd (effective_order hint (adapter_order reg)) = a"
  shows "hd (attempt_trail_of (outcome (execute cfg now hint adapters reg))) = (a, Circuit_open)"
proof -
  let ?order = "effective_order hint (adapter_order reg)"
  obtain res trail hs' calls where
    run: "failover cfg now adapters ?order (health reg) = (res, trail, hs', calls)"
    by (cases "failover cfg now adapters ?order (health reg)") auto
  from assms(2,3) obtain rest where o: "?order = a # rest" by (cases ?order) auto
  from failover_trail_head [OF run [unfolded o]] have t: "trail \<noteq> []" "fst (hd trail) = a"
    by simp_all
  then have "hd trail \<in> set trail" by simp
  then have "(a, snd (hd trail)) \<in> set trail" using t(2) by (metis prod.collapse)
  with failover_open_skipped [OF assms(1) run] have "snd (hd trail) = Circuit_open" by blast
  with t(2) have "hd trail = (a, Circuit_open)" by (metis prod.collapse)
  then show ?thesis unfolding execute_unfold(1) [OF run] .
qed

















section \<open>Properties of the Prompt Builder and the Generation Pipeline\<close>







lemma assemble_error_kind: "assemble b refs = Inl e \<Longrightarrow> e = InvalidBrandError"
  by (simp add: assemble_def split: option.splits)

lemma build_error_kind: "build reg req ctx = Inl e \<Longrightarrow> e = UnsupportedCombinationError"
  by (simp add: build_def split: option.splits)

lemma execute_error:
  assumes "outcome (execute cfg now hint adapters reg) = Inl e"
  shows "\<exists>t. e = AllProvidersUnavailableError t
           \<and> map fst t = effective_order hint (adapter_order reg)"
proof -
  let ?order = "effective_order hint (adapter_order reg)"
  obtain res trail hs' calls where
    run: "failover cfg now adapters ?order (health reg) = (res, trail, hs', calls)"
    by (cases "failover cfg now adapters ?order (health reg)") auto
  from assms run have "res = None \<and> e = AllProvidersUnavailableError trail"
    by (cases res) (simp_all add: execute_def)
  with failover_none [of cfg now adapters ?order "health reg" trail hs' calls] run
  show ?thesis by simp
qed

lemma generate_content_provider_stage:
  assumes "brief req \<noteq> []"
    and "check_and_increment (rate cfg) now (caller req) (counters st) = (Allowed, c')"
    and "get_brand env (brand_ref req) = Some b"
    and "assemble b (get_reference_materials env (brand_ref req)) = Inr ctx"
    and "build (templates cfg) req ctx = Inr prompt"
  shows "generate_content cfg env now req st =
           (let x = execute (breaker cfg) now (preferred_provider req)
                      (\<lambda>a. generate env a prompt) (providers st)
            in case outcome x of
                 Inl e \<Rightarrow> (Inl e, st\<lparr>counters := c', providers := registry_after x\<rparr>)
               | Inr (r, trail) \<Rightarrow>
                   (let g = \<lparr>chosen_provider = provider r, generated = payload r,
                             attempt_trail = trail, timestamp = now\<rparr>
                    in (Inr g,
                        st\<lparr>counters := c', providers := registry_after x,
                           persisted := persisted st @ [g]\<rparr>)))"
  using assms by (simp add: generate_content_def)

lemma generate_content_unavailable_result:
  assumes "fst (generate_content cfg env now req st) = Inl (AllProvidersUnavailableError trail)"
  shows "persisted (snd (generate_content cfg env now req st)) = persisted st
         \<and> map fst trail = effective_order (preferred_provider req) (adapter_order (providers st))"
proof -
  have b: "brief req \<noteq> []"
    using assms by (auto simp: generate_content_def)
  obtain d c' where chk: "check_and_increment (rate cfg) now (caller req) (counters st) = (d, c')"
    by (cases "check_and_increment (rate cfg) now (caller req) (counters st)") auto
  have d: "d = Allowed"
    using assms b chk by (cases d) (simp_all add: generate_content_def)
  obtain br where gb: "get_brand env (brand_ref req) = Some br"
    using assms b chk d by (cases "get_brand env (brand_ref req)") (simp_all add: generate_content_def)
  obtain ctx where asm: "assemble br (get_reference_materials env (brand_ref req)) = Inr ctx"
    using assms b chk d gb assemble_error_kind [of br "get_reference_materials env (brand_ref req)"]
    by (cases "assemble br (get_reference_materials env (brand_ref req))")
       (auto simp: generate_content_def)
  obtain prompt where bld: "build (templates cfg) req ctx = Inr prompt"
    using assms b chk d gb asm build_error_kind [of "templates cfg" req ctx]
    by (cases "build (templates cfg) req ctx") (auto simp: generate_content_def)
  let ?x = "execute (breaker cfg) now (preferred_provider req)
              (\<lambda>a. generate env a prompt) (providers st)"
  note stage = generate_content_provider_stage [OF b chk [unfolded d] gb asm bld]
  show ?thesis
  proof (cases "outcome ?x")
    case (Inl e)
    with stage have res: "generate_content cfg env now req st =
        (Inl e, st\<lparr>counters := c', providers := registry_after ?x\<rparr>)"
      by (simp add: Let_def)
    with assms have "e = AllProvidersUnavailableError trail" by simp
    moreover from execute_error [OF Inl] obtain t where
      "e = AllProvidersUnavailableError t"
      "map fst t = effective_order (preferred_provider req) (adapter_order (providers st))"
      by blast
    ultimately show ?thesis using res by simp
  next
    case (Inr rt)
    with stage assms show ?thesis by (cases rt) (simp add: Let_def)
  qed
qed

lemma generate_content_when_all_unavailable:
  assumes "brief req \<noteq> []"
    and "fst (check_and_increment (rate cfg) now (caller req) (counters st)) = Allowed"
    and "get_brand env (brand_ref req) = Some b"
    and "assemble b (get_reference_materials env (brand_ref req)) = Inr ctx"
    and "build (templates cfg) req ctx = Inr prompt"
    and "distinct (adapter_order (providers st))"
    and "\<forall>a\<in>set (adapter_order (providers st)).
           unavailable (breaker cfg) now (generate env a prompt) (health (providers st) a)"
  shows "\<exists>t. fst (generate_content cfg env now req st) = Inl (AllProvidersUnavailableError t)"
proof -
  obtain c' where chk: "check_and_increment (rate cfg) now (caller req) (counters st) = (Allowed, c')"
    using assms(2) by (cases "check_and_increment (rate cfg) now (caller req) (counters st)") auto
  let ?order = "effective_order (preferred_provider req) (adapter_order (providers st))"
  let ?ad = "\<lambda>a. generate env a prompt"
  let ?x = "execute (breaker cfg) now (preferred_provider req) ?ad (providers st)"
  have "distinct ?order" using assms(6) by (rule effective_order_distinct)
  moreover have "\<forall>a\<in>set ?order. unavailable (breaker cfg) now (?ad a) (health (providers st) a)"
    using assms(7) by (simp add: effective_order_set)
  ultimately have none: "fst (failover (breaker cfg) now ?ad ?order (health (providers st))) = None"
    by (rule failover_all_unavailable)
  obtain res trail hs' calls where
    run: "failover (breaker cfg) now ?ad ?order (health (providers st)) = (res, trail, hs', calls)"
    by (cases "failover (breaker cfg) now ?ad ?order (health (providers st))") auto
  with none have "outcome ?x = Inl (AllProvidersUnavailableError trail)"
    by (simp add: execute_def)
  with generate_content_provider_stage [OF assms(1) chk assms(3,4,5)]
  have "fst (generate_content cfg env now req st) = Inl (AllProvidersUnavailableError trail)"
    by (simp add: Let_def)
  then show ?thesis ..
qed

text \<open>
  C4. Whenever \<open>generate_content\<close> fails with \<open>AllProvidersUnavailableError\<close>, the attempt
  trail has one entry per adapter, in the order of the call, and nothing is handed to
  persistence. It does fail so when the request passes validation, rate limit, context
  assembly and prompt building and every adapter of the registry is exhausted or skipped as
  circuit-open; the trail then has as many entries as the registry has adapters.
\<close>

theorem generate_content_all_providers_unavailable:
  "(fst (generate_content cfg env now req st) = Inl (AllProvidersUnavailableError trail) \<longrightarrow>
      persisted (snd (generate_content cfg env now req st)) = persisted st
      \<and> map fst trail = effective_order (preferred_provider req) (adapter_order (providers st)))
   \<and> (brief req \<noteq> []
       \<and> fst (check_and_increment (rate cfg) now (caller req) (counters st)) = Allowed
       \<and> get_brand env (brand_ref req) = Some b
       \<and> assemble b (get_reference_materials env (brand_ref req)) = Inr ctx
       \<and> build (templates cfg) req ctx = Inr prompt
       \<and> distinct (adapter_order (providers st))
       \<and> (\<forall>a\<in>set (adapter_order (providers st)).
             unavailable (breaker cfg) now (generate env a prompt) (health (providers st) a))
      \<longrightarrow> (\<exists>t. fst (generate_content cfg env now req st) = Inl (AllProvidersUnavailableError t)
               \<and> length t = length (adapter_order (providers st))
               \<and> set (map fst t) = set (adapter_order (providers st)))
          \<and> persisted (snd (generate_content cfg env now req st)) = persisted st)"
proof (intro conjI impI)
  assume "fst (generate_content cfg env now req st) = Inl (AllProvidersUnavailableError trail)"
  note r = generate_content_unavailable_result [OF this]
  from r show "persisted (snd (generate_content cfg env now req st)) = persisted st" by simp
  from r show "map fst trail
      = effective_order (preferred_provider req) (adapter_order (providers st))" by simp
next
  assume h: "brief req \<noteq> []
       \<and> fst (check_and_increment (rate cfg) now (caller req) (counters st)) = Allowed
       \<and> get_brand env (brand_ref req) = Some b
       \<and> assemble b (get_reference_materials env (brand_ref req)) = Inr ctx
       \<and> build (templates cfg) req ctx = Inr prompt
       \<and> distinct (adapter_order (providers st))
       \<and> (\<forall>a\<in>set (adapter_order (providers st)).
             unavailable (breaker cfg) now (generate env a prompt) (health (providers st) a))"
  then obtain t where
    t: "fst (generate_content cfg env now req st) = Inl (AllProvidersUnavailableError t)"
    using generate_content_when_all_unavailable [of req cfg now st env b ctx prompt] by blast
  note r = generate_content_unavailable_result [OF t]
  let ?order = "effective_order (preferred_provider req) (adapter_order (providers st))"
  have "length (map fst t) = length ?order" using r by simp
  then have len: "length t = length (adapter_order (providers st))"
    using h by (simp add: effective_order_length)
  have "set (map fst t) = set ?order" using r by simp
  then have st: "set (map fst t) = set (adapter_order (providers st))"
    by (simp add: effective_order_set)
  from t len st
  show "\<exists>t. fst (generate_content cfg env now req st) = Inl (AllProvidersUnavailableError t)
               \<and> length t = length (adapter_order (providers st))
               \<and> set (map fst t) = set (adapter_order (providers st))"
    by (intro exI conjI)
  from r show "persisted (snd (generate_content cfg env now req st)) = persisted st" by simp
qed

lemma launch_prompt_built:
  "build default_templates launch_request techcorp_context = Inr launch_prompt"
  by (simp add: build_def select_template_def default_templates_def launch_request_def
      techcorp_context_def launch_prompt_def brand_section_def brief_section_def)

lemma techcorp_assembled: "assemble techcorp [] = Inr techcorp_context"
  by (simp add: assemble_def techcorp_def techcorp_context_def)

lemma first_call_allowed:
  "fst (check_and_increment default_rate_config 1000 ''user-1'' Map.empty) = Allowed"
  by (simp add: check_and_increment_def default_rate_config_def windows_of_def prune_def
      current_count_def Let_def)

lemma outage_execution:
  "outcome (execute standard_breaker 1000 None all_down two_providers)
     = Inl (AllProvidersUnavailableError
              [(''claude'', Failure TransientError), (''gemini'', Failure TransientError)])"
  by code_simp

lemma outage_result:
  "fst (generate_content standard_config outage 1000 launch_request fresh_engine)
     = Inl (AllProvidersUnavailableError
              [(''claude'', Failure TransientError), (''gemini'', Failure TransientError)])"
proof -
  obtain c' where chk:
    "check_and_increment (rate standard_config) 1000 (caller launch_request)
       (counters fresh_engine) = (Allowed, c')"
    using first_call_allowed
    by (cases "check_and_increment (rate standard_config) 1000 (caller launch_request)
          (counters fresh_engine)")
       (simp add: standard_config_def launch_request_def fresh_engine_def)
  have gen: "(\<lambda>a. generate outage a launch_prompt) = all_down"
    by (simp add: outage_def)
  have "generate_content standard_config outage 1000 launch_request fresh_engine =
      (Inl (AllProvidersUnavailableError
              [(''claude'', Failure TransientError), (''gemini'', Failure TransientError)]),
       fresh_engine\<lparr>counters := c', providers :=
          registry_after (execute standard_breaker 1000 None all_down two_providers)\<rparr>)"
    using generate_content_provider_stage
      [of launch_request standard_config 1000 fresh_engine c' outage techcorp techcorp_context
          launch_prompt] chk techcorp_assembled launch_prompt_built outage_execution
    by (simp add: gen launch_request_def standard_config_def fresh_engine_def outage_def)
  then show ?thesis by simp
qed

theorem generate_content_all_providers_unavailable_witness:
  "fst (generate_content standard_config outage 1000 launch_request fresh_engine)
     = Inl (AllProvidersUnavailableError
              [(''claude'', Failure TransientError), (''gemini'', Failure TransientError)])
   \<and> (\<exists>t. fst (generate_content standard_config outage 1000 launch_request fresh_engine)
           = Inl (AllProvidersUnavailableError t)
         \<and> length t = 2 \<and> set (map fst t) = {''claude'', ''gemini''})
   \<and> persisted (snd (generate_content standard_config outage 1000 launch_request fresh_engine)) = []"
proof -
  have ex: "exhausts (all_down a) 0 (retry_budget standard_breaker Closed)" for a
    by (simp add: all_down_def standard_breaker_def numeral_2_eq_2)
  have un: "\<forall>a\<in>set (adapter_order (providers fresh_engine)).
      unavailable (breaker standard_config) 1000 (generate outage a launch_prompt)
        (health (providers fresh_engine) a)"
    using ex
    by (simp add: unavailable_def fresh_engine_def two_providers_def standard_config_def
        outage_def standard_closed)
  have pre: "brief launch_request \<noteq> []
       \<and> fst (check_and_increment (rate standard_config) 1000 (caller launch_request)
                (counters fresh_engine)) = Allowed
       \<and> get_brand outage (brand_ref launch_request) = Some techcorp
       \<and> assemble techcorp (get_reference_materials outage (brand_ref launch_request))
           = Inr techcorp_context
       \<and> build (templates standard_config) launch_request techcorp_context = Inr launch_prompt
       \<and> distinct (adapter_order (providers fresh_engine))"
    using first_call_allowed techcorp_assembled launch_prompt_built
    by (simp add: launch_request_def standard_config_def fresh_engine_def outage_def
        two_providers_def)
  have fe: "adapter_order (providers fresh_engine) = [''claude'', ''gemini'']"
    "persisted fresh_engine = []"
    by (simp_all add: fresh_engine_def two_providers_def)
  note inst = generate_content_all_providers_unavailable
    [of standard_config outage 1000 launch_request fresh_engine
        "[(''claude'', Failure TransientError), (''gemini'', Failure TransientError)]"
        techcorp techcorp_context launch_prompt]
  have a: "persisted (snd (generate_content standard_config outage 1000 launch_request
              fresh_engine)) = []"
    using inst [THEN conjunct1] outage_result by (simp add: fe)
  have b: "\<exists>t. fst (generate_content standard_config outage 1000 launch_request fresh_engine)
           = Inl (AllProvidersUnavailableError t)
         \<and> length t = 2 \<and> set (map fst t) = {''claude'', ''gemini''}"
    using inst [THEN conjunct2] pre un by (simp add: fe numeral_2_eq_2)
  from outage_result a b show ?thesis by (intro conjI)
qed

section \<open>The Rate Limiter at its cap\<close>





end
